theory Spec2Isabelle
  imports Main "HOL-Library.Word"
begin

unbundle bit_operations_syntax

section \<open>Values of the backing store\<close>

text \<open>
  The breaker keeps every mutable field behind the \<open>get\<close>/\<open>set\<close> interface of a
  \<open>State\<close> object. A \<open>get\<close> yields \<open>undefined\<close> for a key that was never set, and the
  breaker itself stores \<open>null\<close> for a cleared timestamp, so a key is in one of three
  conditions.
\<close>

datatype 'a slot = Absent | Null | Val 'a

text \<open>The operator \<open>x ?? d\<close>: the default replaces \<open>undefined\<close> and \<open>null\<close> only.\<close>

fun nullish :: "'a slot \<Rightarrow> 'a \<Rightarrow> 'a" where
  "nullish Absent d = d"
| "nullish Null d = d"
| "nullish (Val v) d = v"

text \<open>
  JavaScript strings are sequences of UTF-16 code units; \<open>charCodeAt\<close> reads one unit.
\<close>

type_synonym jsstring = "16 word list"

text \<open>
  Modelled from the spec: the \<open>State\<close> object of the package \<open>@synet/state\<close>, which the
  repository imports but does not contain. The spec describes it as a key-value store
  with \<open>get(key) -> value | absent\<close> and \<open>set(key, value) -> void\<close>, addressed by a
  per-breaker identifier. The record has one field for the identifier and one per key the
  breaker uses, each at the type the breaker reads it at (\<open>get<number>\<close>,
  \<open>get<CircuitState>\<close>); \<open>set\<close> of a key is the update of its field. Numbers are
  integers: counters and millisecond clock readings.
\<close>

record store =
  store_id :: jsstring
  k_url :: "jsstring slot"
  k_state :: "string slot"
  k_failures :: "int slot"
  k_lastFailure :: "int slot"
  k_successCount :: "int slot"
  k_openedAt :: "int slot"

definition createState ::
  "jsstring \<Rightarrow> jsstring slot \<Rightarrow> string slot \<Rightarrow> int slot \<Rightarrow> int slot \<Rightarrow> int slot \<Rightarrow> int slot \<Rightarrow> store" where
  "createState ident u st f lf sc oa =
     \<lparr>store_id = ident, k_url = u, k_state = st, k_failures = f, k_lastFailure = lf,
      k_successCount = sc, k_openedAt = oa\<rparr>"

text \<open>A store in which no key was ever set.\<close>

definition emptyState :: "jsstring \<Rightarrow> store" where
  "emptyState ident = createState ident Absent Absent Absent Absent Absent Absent"

section \<open>Configuration\<close>

text \<open>\<open>CircuitBreakerConfig\<close>: what the caller passes, the optional fields possibly missing.\<close>

record CircuitBreakerConfig =
  cfg_url :: jsstring
  cfg_failureThreshold :: "int option"
  cfg_timeoutMs :: "int option"
  cfg_halfOpenSuccessThreshold :: "int option"

text \<open>
  \<open>CircuitBreakerProps\<close> without the injected store, which is passed to every operation
  separately and returned updated.
\<close>

record CircuitBreakerProps =
  dna_id :: jsstring
  url :: jsstring
  failureThreshold :: int
  timeoutMs :: int
  halfOpenSuccessThreshold :: int

section \<open>The state machine\<close>

definition getCircuitState :: "store \<Rightarrow> string" where
  "getCircuitState s = nullish (k_state s) ''CLOSED''"

definition resetCircuit :: "store \<Rightarrow> store" where
  "resetCircuit s =
     s\<lparr>k_state := Val ''CLOSED'', k_failures := Val 0, k_lastFailure := Null,
       k_successCount := Val 0, k_openedAt := Null\<rparr>"

text \<open>\<open>openCircuit\<close> reads the clock once; \<open>now\<close> is that reading.\<close>

definition openCircuit :: "int \<Rightarrow> store \<Rightarrow> store" where
  "openCircuit now s =
     s\<lparr>k_state := Val ''OPEN'', k_openedAt := Val now, k_successCount := Val 0\<rparr>"

text \<open>
  \<open>canProceed\<close>: in the \<open>OPEN\<close> case the test is
  \<open>openedAt && Date.now() - openedAt >= timeoutMs\<close>; a number is truthy when it is not 0,
  \<open>undefined\<close> and \<open>null\<close> are falsy. \<open>now\<close> is the reading of \<open>Date.now()\<close>.
\<close>

definition canProceed :: "CircuitBreakerProps \<Rightarrow> int \<Rightarrow> store \<Rightarrow> bool \<times> store" where
  "canProceed p now s =
     (let currentState = getCircuitState s in
      if currentState = ''CLOSED'' then (True, s)
      else if currentState = ''OPEN'' then
        (case k_openedAt s of
           Val openedAt \<Rightarrow>
             if openedAt \<noteq> 0 \<and> now - openedAt \<ge> timeoutMs p
             then (True, s\<lparr>k_state := Val ''HALF_OPEN'', k_successCount := Val 0\<rparr>)
             else (False, s)
         | _ \<Rightarrow> (False, s))
      else if currentState = ''HALF_OPEN'' then (True, s)
      else (False, s))"

definition recordSuccess :: "CircuitBreakerProps \<Rightarrow> store \<Rightarrow> store" where
  "recordSuccess p s =
     (let currentState = getCircuitState s in
      if currentState = ''HALF_OPEN'' then
        (let successCount = nullish (k_successCount s) 0 + 1;
             s1 = s\<lparr>k_successCount := Val successCount\<rparr>
         in if successCount \<ge> halfOpenSuccessThreshold p then resetCircuit s1 else s1)
      else if currentState = ''CLOSED'' then
        s\<lparr>k_failures := Val 0, k_lastFailure := Null\<rparr>
      else s)"

text \<open>
  \<open>recordFailure\<close> reads the clock for \<open>lastFailure\<close> (\<open>now\<close>) and, when it opens the
  circuit, a second time inside \<open>openCircuit\<close> (\<open>now'\<close>).
\<close>

definition recordFailure :: "CircuitBreakerProps \<Rightarrow> int \<Rightarrow> int \<Rightarrow> store \<Rightarrow> store" where
  "recordFailure p now now' s =
     (let failures = nullish (k_failures s) 0 + 1;
          s1 = s\<lparr>k_failures := Val failures\<rparr>;
          s2 = s1\<lparr>k_lastFailure := Val now\<rparr>;
          currentState = getCircuitState s2
      in if currentState = ''HALF_OPEN'' then openCircuit now' s2
         else if failures \<ge> failureThreshold p then openCircuit now' s2
         else s2)"

section \<open>Monitoring and the capability surface\<close>

record stats_config =
  sc_failureThreshold :: int
  sc_timeoutMs :: int
  sc_halfOpenSuccessThreshold :: int

record stats =
  stats_url :: jsstring
  stats_state :: string
  stats_failures :: int
  stats_lastFailure :: "int slot"
  stats_successCount :: int
  stats_openedAt :: "int slot"
  stats_config :: stats_config

definition getStats :: "CircuitBreakerProps \<Rightarrow> store \<Rightarrow> stats" where
  "getStats p s =
     \<lparr>stats_url = url p,
      stats_state = getCircuitState s,
      stats_failures = nullish (k_failures s) 0,
      stats_lastFailure = k_lastFailure s,
      stats_successCount = nullish (k_successCount s) 0,
      stats_openedAt = k_openedAt s,
      stats_config =
        \<lparr>sc_failureThreshold = failureThreshold p,
         sc_timeoutMs = timeoutMs p,
         sc_halfOpenSuccessThreshold = halfOpenSuccessThreshold p\<rparr>\<rparr>"

text \<open>
  The capabilities that \<open>teach\<close> hands out, each with the clock readings its call takes,
  and what a call returns together with the store it leaves behind.
\<close>

datatype capability =
  CanProceed int
| RecordSuccess
| RecordFailure int int
| GetCircuitState
| ResetCircuit
| GetStats

datatype outcome = Bool bool | Void | State string | Stats stats

fun teach :: "CircuitBreakerProps \<Rightarrow> capability \<Rightarrow> store \<Rightarrow> outcome \<times> store" where
  "teach p (CanProceed now) s = (case canProceed p now s of (b, s') \<Rightarrow> (Bool b, s'))"
| "teach p RecordSuccess s = (Void, recordSuccess p s)"
| "teach p (RecordFailure now now') s = (Void, recordFailure p now now' s)"
| "teach p GetCircuitState s = (State (getCircuitState s), s)"
| "teach p ResetCircuit s = (Void, resetCircuit s)"
| "teach p GetStats s = (Stats (getStats p s), s)"

text \<open>A sequence of calls on one breaker, each on the store the previous one left.\<close>

fun run :: "CircuitBreakerProps \<Rightarrow> capability list \<Rightarrow> store \<Rightarrow> store" where
  "run p [] s = s"
| "run p (c # cs) s = run p cs (snd (teach p c s))"

text \<open>
  Consecutive \<open>recordFailure\<close> calls with nothing in between; each call comes with its two
  clock readings.
\<close>

fun recordFailures :: "CircuitBreakerProps \<Rightarrow> (int \<times> int) list \<Rightarrow> store \<Rightarrow> store" where
  "recordFailures p [] s = s"
| "recordFailures p ((now, now') # ts) s = recordFailures p ts (recordFailure p now now' s)"

section \<open>Construction and the derived store key\<close>

text \<open>The code units of an ASCII literal.\<close>

definition utf16 :: "string \<Rightarrow> jsstring" where
  "utf16 cs = map (\<lambda>c. word_of_nat (of_char c)) cs"

text \<open>
  \<open>safeId\<close> of the revision that hashes the URL. The loop keeps \<open>hash\<close> a 32-bit integer:
  \<open>hash << 5\<close> wraps to 32 bits, the subtraction and the addition are exact on numbers of
  this size, and \<open>hash & hash\<close> wraps the sum to 32 bits again; on \<open>32 word\<close> the same
  operations wrap by themselves. \<open>Math.abs\<close> is taken of the signed value.
\<close>

fun hashLoop :: "32 word \<Rightarrow> jsstring \<Rightarrow> 32 word" where
  "hashLoop hash [] = hash"
| "hashLoop hash (char # rest) =
     hashLoop (let hash1 = (push_bit 5 hash - hash) + ucast char in hash1 AND hash1) rest"

definition hexDigit :: "nat \<Rightarrow> 16 word" where
  "hexDigit d = utf16 ''0123456789abcdef'' ! d"

text \<open>\<open>toString(16)\<close> of a non-negative integer.\<close>

fun toString16 :: "nat \<Rightarrow> jsstring" where
  "toString16 n = (if n < 16 then [hexDigit n] else toString16 (n div 16) @ [hexDigit (n mod 16)])"

declare toString16.simps [simp del]

definition padStart :: "nat \<Rightarrow> 16 word \<Rightarrow> jsstring \<Rightarrow> jsstring" where
  "padStart n c s = replicate (n - length s) c @ s"

definition safeId :: "jsstring \<Rightarrow> jsstring" where
  "safeId u =
     (let hash = hashLoop 0 u;
          hexHash = padStart 8 (hexDigit 0) (toString16 (nat \<bar>sint hash\<bar>))
      in hexHash)"

definition create :: "CircuitBreakerConfig \<Rightarrow> CircuitBreakerProps \<times> store" where
  "create config =
     (let safe = safeId (cfg_url config);
          state = createState safe (Val (cfg_url config)) (Val ''CLOSED'') (Val 0) Null (Val 0) Null;
          props =
            \<lparr>dna_id = utf16 ''circuit-breaker-'' @ safe,
             url = cfg_url config,
             failureThreshold = (case cfg_failureThreshold config of None \<Rightarrow> 5 | Some v \<Rightarrow> v),
             timeoutMs = (case cfg_timeoutMs config of None \<Rightarrow> 30000 | Some v \<Rightarrow> v),
             halfOpenSuccessThreshold =
               (case cfg_halfOpenSuccessThreshold config of None \<Rightarrow> 1 | Some v \<Rightarrow> v)\<rparr>
      in (props, state))"

text \<open>
  The other revision of \<open>create\<close> derives the key inline, by four replacements:
  the first \<open>http://\<close> or \<open>https://\<close> is removed, every code unit outside
  \<open>a-z\<close>, \<open>A-Z\<close>, \<open>0-9\<close> becomes \<open>-\<close>, runs of \<open>-\<close> shrink to one, and one \<open>-\<close> is
  removed from the start and one from the end.
\<close>

definition dash :: "16 word" where
  "dash = 45"

definition isAlnum :: "16 word \<Rightarrow> bool" where
  "isAlnum c = ((97 \<le> c \<and> c \<le> 122) \<or> (65 \<le> c \<and> c \<le> 90) \<or> (48 \<le> c \<and> c \<le> 57))"

fun dropScheme :: "jsstring \<Rightarrow> jsstring" where
  "dropScheme [] = []"
| "dropScheme (c # cs) =
     (if take 8 (c # cs) = utf16 ''https://'' then drop 8 (c # cs)
      else if take 7 (c # cs) = utf16 ''http://'' then drop 7 (c # cs)
      else c # dropScheme cs)"

fun squeezeDashes :: "jsstring \<Rightarrow> jsstring" where
  "squeezeDashes (a # b # r) =
     (if a = dash \<and> b = dash then squeezeDashes (b # r) else a # squeezeDashes (b # r))"
| "squeezeDashes xs = xs"

definition trimDash :: "jsstring \<Rightarrow> jsstring" where
  "trimDash xs =
     (let ys = (case xs of [] \<Rightarrow> [] | c # r \<Rightarrow> if c = dash then r else xs)
      in if ys \<noteq> [] \<and> last ys = dash then butlast ys else ys)"

definition safeIdInline :: "jsstring \<Rightarrow> jsstring" where
  "safeIdInline u =
     utf16 ''circuit-'' @
     trimDash (squeezeDashes (map (\<lambda>c. if isAlnum c then c else dash) (dropScheme u)))"

definition createInline :: "CircuitBreakerConfig \<Rightarrow> CircuitBreakerProps \<times> store" where
  "createInline config =
     (let safe = safeIdInline (cfg_url config);
          state = createState safe (Val (cfg_url config)) (Val ''CLOSED'') (Val 0) Null (Val 0) Null;
          props =
            \<lparr>dna_id = utf16 ''circuit-breaker-'' @ safe,
             url = cfg_url config,
             failureThreshold = (case cfg_failureThreshold config of None \<Rightarrow> 5 | Some v \<Rightarrow> v),
             timeoutMs = (case cfg_timeoutMs config of None \<Rightarrow> 30000 | Some v \<Rightarrow> v),
             halfOpenSuccessThreshold =
               (case cfg_halfOpenSuccessThreshold config of None \<Rightarrow> 1 | Some v \<Rightarrow> v)\<rparr>
      in (props, state))"

section \<open>Reset\<close>

text \<open>
  C7: from every store, \<open>resetCircuit\<close> sets the state to \<open>CLOSED\<close>, both counters to 0 and
  both timestamps to \<open>null\<close>; the identifier and the stored \<open>url\<close> are kept.
\<close>

theorem resetCircuit_full:
  "resetCircuit s =
     \<lparr>store_id = store_id s, k_url = k_url s, k_state = Val ''CLOSED'', k_failures = Val 0,
      k_lastFailure = Null, k_successCount = Val 0, k_openedAt = Null\<rparr>"
  by (simp add: resetCircuit_def)

section \<open>Failures\<close>

text \<open>
  C6: in state \<open>HALF_OPEN\<close> one \<open>recordFailure\<close> increments \<open>failures\<close>, sets
  \<open>lastFailure\<close> to the first clock reading of the call, and opens the circuit whatever the
  threshold is: the state becomes \<open>OPEN\<close>, \<open>openedAt\<close> the clock reading taken while
  opening, and \<open>successCount\<close> 0.
\<close>

theorem recordFailure_half_open:
  assumes "getCircuitState s = ''HALF_OPEN''"
  shows "recordFailure p now now' s =
           s\<lparr>k_failures := Val (nullish (k_failures s) 0 + 1), k_lastFailure := Val now,
             k_state := Val ''OPEN'', k_openedAt := Val now', k_successCount := Val 0\<rparr>"
  using assms by (simp add: recordFailure_def openCircuit_def getCircuitState_def Let_def)

theorem recordFailure_half_open_witness:
  "getCircuitState (createState [] Absent (Val ''HALF_OPEN'') (Val 2) (Val 10) (Val 1) (Val 10)) = ''HALF_OPEN'' \<and>
   recordFailure \<lparr>dna_id = [], url = [], failureThreshold = 5, timeoutMs = 100, halfOpenSuccessThreshold = 2\<rparr> 50 51
       (createState [] Absent (Val ''HALF_OPEN'') (Val 2) (Val 10) (Val 1) (Val 10))
     = createState [] Absent (Val ''OPEN'') (Val 3) (Val 50) (Val 0) (Val 51)"
proof -
  have h: "getCircuitState (createState [] Absent (Val ''HALF_OPEN'') (Val 2) (Val 10) (Val 1) (Val 10)) = ''HALF_OPEN''"
    by (simp add: getCircuitState_def createState_def)
  show ?thesis
    using h recordFailure_half_open [OF h, of "\<lparr>dna_id = [], url = [], failureThreshold = 5, timeoutMs = 100, halfOpenSuccessThreshold = 2\<rparr>" 50 51]
    by (simp add: createState_def)
qed

text \<open>
  Once the circuit is \<open>OPEN\<close> or \<open>HALF_OPEN\<close> the failure counter has reached the
  threshold, and it stays there until the circuit closes: no call in these two states
  lowers \<open>failures\<close>.
\<close>

lemma tripped_step:
  assumes "getCircuitState s = ''OPEN'' \<or> getCircuitState s = ''HALF_OPEN''
             \<longrightarrow> failureThreshold p \<le> nullish (k_failures s) 0"
  shows "getCircuitState (snd (teach p c s)) = ''OPEN'' \<or>
         getCircuitState (snd (teach p c s)) = ''HALF_OPEN''
           \<longrightarrow> failureThreshold p \<le> nullish (k_failures (snd (teach p c s))) 0"
proof (cases c)
  case (CanProceed now)
  with assms show ?thesis
    by (auto simp add: canProceed_def getCircuitState_def Let_def split: slot.splits if_splits)
next
  case RecordSuccess
  with assms show ?thesis
    by (auto simp add: recordSuccess_def resetCircuit_def getCircuitState_def Let_def
        split: if_splits)
next
  case (RecordFailure now now')
  with assms show ?thesis
    by (auto simp add: recordFailure_def openCircuit_def getCircuitState_def Let_def
        split: if_splits)
next
  case GetCircuitState
  with assms show ?thesis by simp
next
  case ResetCircuit
  then show ?thesis by (simp add: resetCircuit_def getCircuitState_def)
next
  case GetStats
  with assms show ?thesis by simp
qed

lemma tripped_run:
  assumes "getCircuitState s = ''OPEN'' \<or> getCircuitState s = ''HALF_OPEN''
             \<longrightarrow> failureThreshold p \<le> nullish (k_failures s) 0"
  shows "getCircuitState (run p cs s) = ''OPEN'' \<or> getCircuitState (run p cs s) = ''HALF_OPEN''
           \<longrightarrow> failureThreshold p \<le> nullish (k_failures (run p cs s)) 0"
  using assms
proof (induction cs arbitrary: s)
  case Nil
  then show ?case by simp
next
  case (Cons c cs)
  from Cons.IH [OF tripped_step [OF Cons.prems]] show ?case by simp
qed

lemma create_fresh:
  assumes "create config = (p, s0)"
  shows "getCircuitState s0 = ''CLOSED''" and "k_failures s0 = Val 0"
  using assms by (auto simp add: create_def createState_def getCircuitState_def Let_def)

text \<open>
  So in every state a freshly created breaker can reach, a failure recorded while \<open>OPEN\<close>
  runs \<open>openCircuit\<close> again and restarts the timeout clock.
\<close>

lemma recordFailure_open_reachable:
  assumes fresh: "create config = (p, s0)"
    and "getCircuitState (run p cs s0) = ''OPEN''"
  shows "recordFailure p now now' (run p cs s0) =
           (run p cs s0)\<lparr>k_failures := Val (nullish (k_failures (run p cs s0)) 0 + 1),
             k_lastFailure := Val now, k_state := Val ''OPEN'', k_openedAt := Val now',
             k_successCount := Val 0\<rparr>"
proof -
  have "getCircuitState s0 = ''OPEN'' \<or> getCircuitState s0 = ''HALF_OPEN''
          \<longrightarrow> failureThreshold p \<le> nullish (k_failures s0) 0"
    using create_fresh(1) [OF fresh] by simp
  from tripped_run [OF this, of cs] assms(2)
  have "failureThreshold p \<le> nullish (k_failures (run p cs s0)) 0" by simp
  with assms(2) show ?thesis
    by (simp add: recordFailure_def openCircuit_def getCircuitState_def Let_def)
qed

text \<open>
  C1, as amended: in state \<open>OPEN\<close>, \<open>recordFailure\<close> increments \<open>failures\<close>, sets
  \<open>lastFailure\<close> to the clock reading of the call and leaves the state \<open>OPEN\<close>. It leaves
  \<open>openedAt\<close> and \<open>successCount\<close> untouched only when the incremented counter is still
  below \<open>failureThreshold\<close>; otherwise it runs \<open>openCircuit\<close> again, which sets \<open>openedAt\<close>
  to the clock reading taken then and \<open>successCount\<close> to 0.
\<close>

theorem recordFailure_open:
  assumes "getCircuitState s = ''OPEN''"
  shows "recordFailure p now now' s =
           (if nullish (k_failures s) 0 + 1 \<ge> failureThreshold p
            then s\<lparr>k_failures := Val (nullish (k_failures s) 0 + 1), k_lastFailure := Val now,
                   k_state := Val ''OPEN'', k_openedAt := Val now', k_successCount := Val 0\<rparr>
            else s\<lparr>k_failures := Val (nullish (k_failures s) 0 + 1), k_lastFailure := Val now\<rparr>)"
  using assms by (simp add: recordFailure_def openCircuit_def getCircuitState_def Let_def)

theorem recordFailure_open_witness:
  "getCircuitState (createState [] Absent (Val ''OPEN'') (Val 2) (Val 10) (Val 0) (Val 10)) = ''OPEN'' \<and>
   recordFailure \<lparr>dna_id = [], url = [], failureThreshold = 2, timeoutMs = 100, halfOpenSuccessThreshold = 1\<rparr> 20 21
       (createState [] Absent (Val ''OPEN'') (Val 2) (Val 10) (Val 0) (Val 10))
     = createState [] Absent (Val ''OPEN'') (Val 3) (Val 20) (Val 0) (Val 21) \<and>
   getCircuitState (createState [] Absent (Val ''OPEN'') (Val 2) (Val 10) (Val 0) (Val 10)) = ''OPEN'' \<and>
   recordFailure \<lparr>dna_id = [], url = [], failureThreshold = 5, timeoutMs = 100, halfOpenSuccessThreshold = 1\<rparr> 20 21
       (createState [] Absent (Val ''OPEN'') (Val 2) (Val 10) (Val 0) (Val 10))
     = createState [] Absent (Val ''OPEN'') (Val 3) (Val 20) (Val 0) (Val 10)"
proof -
  have h: "getCircuitState (createState [] Absent (Val ''OPEN'') (Val 2) (Val 10) (Val 0) (Val 10)) = ''OPEN''"
    by (simp add: getCircuitState_def createState_def)
  show ?thesis
    using h
      recordFailure_open [OF h, of "\<lparr>dna_id = [], url = [], failureThreshold = 2, timeoutMs = 100, halfOpenSuccessThreshold = 1\<rparr>" 20 21]
      recordFailure_open [OF h, of "\<lparr>dna_id = [], url = [], failureThreshold = 5, timeoutMs = 100, halfOpenSuccessThreshold = 1\<rparr>" 20 21]
    by (simp add: createState_def)
qed

text \<open>
  The claim as first stated fails on a breaker with threshold 2 that two failures have
  opened at clock reading 10: a third failure at reading 20 moves \<open>openedAt\<close> to 20.
\<close>

theorem recordFailure_open_resets_clock:
  "getCircuitState
     (recordFailures
        (fst (create \<lparr>cfg_url = utf16 ''http://Aa'', cfg_failureThreshold = Some 2,
                      cfg_timeoutMs = Some 100, cfg_halfOpenSuccessThreshold = None\<rparr>))
        [(5, 5), (10, 10)]
        (snd (create \<lparr>cfg_url = utf16 ''http://Aa'', cfg_failureThreshold = Some 2,
                      cfg_timeoutMs = Some 100, cfg_halfOpenSuccessThreshold = None\<rparr>))) = ''OPEN'' \<and>
   k_openedAt
     (recordFailures
        (fst (create \<lparr>cfg_url = utf16 ''http://Aa'', cfg_failureThreshold = Some 2,
                      cfg_timeoutMs = Some 100, cfg_halfOpenSuccessThreshold = None\<rparr>))
        [(5, 5), (10, 10)]
        (snd (create \<lparr>cfg_url = utf16 ''http://Aa'', cfg_failureThreshold = Some 2,
                      cfg_timeoutMs = Some 100, cfg_halfOpenSuccessThreshold = None\<rparr>))) = Val 10 \<and>
   k_openedAt
     (recordFailure
        (fst (create \<lparr>cfg_url = utf16 ''http://Aa'', cfg_failureThreshold = Some 2,
                      cfg_timeoutMs = Some 100, cfg_halfOpenSuccessThreshold = None\<rparr>))
        20 20
        (recordFailures
           (fst (create \<lparr>cfg_url = utf16 ''http://Aa'', cfg_failureThreshold = Some 2,
                         cfg_timeoutMs = Some 100, cfg_halfOpenSuccessThreshold = None\<rparr>))
           [(5, 5), (10, 10)]
           (snd (create \<lparr>cfg_url = utf16 ''http://Aa'', cfg_failureThreshold = Some 2,
                         cfg_timeoutMs = Some 100, cfg_halfOpenSuccessThreshold = None\<rparr>)))) = Val 20"
  by (simp add: create_def createState_def recordFailure_def openCircuit_def
      getCircuitState_def Let_def)

lemma recordFailures_append:
  "recordFailures p (ts @ us) s = recordFailures p us (recordFailures p ts s)"
  by (induction p ts s rule: recordFailures.induct) simp_all

lemma recordFailure_closed_below:
  assumes "getCircuitState s = ''CLOSED''"
    and "nullish (k_failures s) 0 + 1 < failureThreshold p"
  shows "getCircuitState (recordFailure p now now' s) = ''CLOSED''"
    and "nullish (k_failures (recordFailure p now now' s)) 0 = nullish (k_failures s) 0 + 1"
  using assms by (simp_all add: recordFailure_def getCircuitState_def Let_def)

lemma recordFailures_closed_below:
  assumes "getCircuitState s = ''CLOSED''"
    and "nullish (k_failures s) 0 + int (length ts) < failureThreshold p"
  shows "getCircuitState (recordFailures p ts s) = ''CLOSED'' \<and>
         nullish (k_failures (recordFailures p ts s)) 0 = nullish (k_failures s) 0 + int (length ts)"
  using assms
proof (induction p ts s rule: recordFailures.induct)
  case (1 p s)
  then show ?case by simp
next
  case (2 p now now' ts s)
  have below: "nullish (k_failures s) 0 + 1 < failureThreshold p"
    using "2.prems"(2) by simp
  note step = recordFailure_closed_below [OF "2.prems"(1) below, of now now']
  have "nullish (k_failures (recordFailure p now now' s)) 0 + int (length ts) < failureThreshold p"
    using step(2) "2.prems"(2) by simp
  from "2.IH" [OF step(1) this] step(2) show ?case by simp
qed

lemma recordFailure_closed_reaching:
  assumes "getCircuitState s = ''CLOSED''"
    and "nullish (k_failures s) 0 + 1 = failureThreshold p"
  shows "recordFailure p now now' s =
           s\<lparr>k_failures := Val (failureThreshold p), k_lastFailure := Val now,
             k_state := Val ''OPEN'', k_openedAt := Val now', k_successCount := Val 0\<rparr>"
  using assms by (simp add: recordFailure_def openCircuit_def getCircuitState_def Let_def)

text \<open>
  C3: on a freshly created breaker with a positive \<open>failureThreshold\<close>, exactly
  \<open>failureThreshold\<close> consecutive \<open>recordFailure\<close> calls leave the state \<open>OPEN\<close>,
  \<open>openedAt\<close> at the clock reading the last call took while opening, \<open>successCount\<close> 0
  and \<open>failures\<close> at the threshold; a \<open>canProceed\<close> whose clock reading is less than
  \<open>timeoutMs\<close> after \<open>openedAt\<close> then returns false and changes nothing.
\<close>

theorem threshold_failures_open:
  assumes fresh: "create config = (p, s0)"
    and pos: "0 < failureThreshold p"
    and len: "int (length ts) = failureThreshold p"
    and early: "now - snd (last ts) < timeoutMs p"
  shows "getCircuitState (recordFailures p ts s0) = ''OPEN'' \<and>
         k_openedAt (recordFailures p ts s0) = Val (snd (last ts)) \<and>
         k_successCount (recordFailures p ts s0) = Val 0 \<and>
         k_failures (recordFailures p ts s0) = Val (failureThreshold p) \<and>
         canProceed p now (recordFailures p ts s0) = (False, recordFailures p ts s0)"
proof -
  from pos len have ne: "ts \<noteq> []" by auto
  define us where "us = butlast ts"
  obtain t t' where lst: "last ts = (t, t')" by (cases "last ts")
  have split: "ts = us @ [(t, t')]"
    using append_butlast_last_id [OF ne] lst by (simp add: us_def)
  define s1 where "s1 = recordFailures p us s0"
  have "nullish (k_failures s0) 0 + int (length us) < failureThreshold p"
    using create_fresh(2) [OF fresh] len split by simp
  from recordFailures_closed_below [OF create_fresh(1) [OF fresh] this]
  have closed: "getCircuitState s1 = ''CLOSED''"
    and cnt: "nullish (k_failures s1) 0 = int (length us)"
    using create_fresh(2) [OF fresh] by (simp_all add: s1_def)
  have "nullish (k_failures s1) 0 + 1 = failureThreshold p"
    using cnt len split by simp
  note opened = recordFailure_closed_reaching [OF closed this, of t t']
  have run: "recordFailures p ts s0 = recordFailure p t t' s1"
    by (simp add: split recordFailures_append s1_def)
  have t': "snd (last ts) = t'" by (simp add: lst)
  show ?thesis
    using early unfolding run opened t'
    by (simp add: getCircuitState_def canProceed_def)
qed

theorem threshold_failures_open_witness:
  "create \<lparr>cfg_url = utf16 ''http://Aa'', cfg_failureThreshold = Some 2,
           cfg_timeoutMs = Some 100, cfg_halfOpenSuccessThreshold = None\<rparr>
     = (\<lparr>dna_id = utf16 ''circuit-breaker-'' @ safeId (utf16 ''http://Aa''), url = utf16 ''http://Aa'',
         failureThreshold = 2, timeoutMs = 100, halfOpenSuccessThreshold = 1\<rparr>,
        createState (safeId (utf16 ''http://Aa'')) (Val (utf16 ''http://Aa'')) (Val ''CLOSED'') (Val 0) Null (Val 0) Null) \<and>
   (0::int) < 2 \<and> int (length [(5::int, 6::int), (10, 11)]) = 2 \<and> (50::int) - snd (last [(5::int, 6::int), (10, 11)]) < 100 \<and>
   recordFailures
      \<lparr>dna_id = utf16 ''circuit-breaker-'' @ safeId (utf16 ''http://Aa''), url = utf16 ''http://Aa'',
        failureThreshold = 2, timeoutMs = 100, halfOpenSuccessThreshold = 1\<rparr>
      [(5, 6), (10, 11)]
      (createState (safeId (utf16 ''http://Aa'')) (Val (utf16 ''http://Aa'')) (Val ''CLOSED'') (Val 0) Null (Val 0) Null)
     = createState (safeId (utf16 ''http://Aa'')) (Val (utf16 ''http://Aa'')) (Val ''OPEN'') (Val 2) (Val 10) (Val 0) (Val 11) \<and>
   canProceed
      \<lparr>dna_id = utf16 ''circuit-breaker-'' @ safeId (utf16 ''http://Aa''), url = utf16 ''http://Aa'',
        failureThreshold = 2, timeoutMs = 100, halfOpenSuccessThreshold = 1\<rparr>
      50
      (createState (safeId (utf16 ''http://Aa'')) (Val (utf16 ''http://Aa'')) (Val ''OPEN'') (Val 2) (Val 10) (Val 0) (Val 11))
     = (False, createState (safeId (utf16 ''http://Aa'')) (Val (utf16 ''http://Aa'')) (Val ''OPEN'') (Val 2) (Val 10) (Val 0) (Val 11))"
proof -
  let ?c = "\<lparr>cfg_url = utf16 ''http://Aa'', cfg_failureThreshold = Some 2,
           cfg_timeoutMs = Some 100, cfg_halfOpenSuccessThreshold = None\<rparr>"
  let ?p = "\<lparr>dna_id = utf16 ''circuit-breaker-'' @ safeId (utf16 ''http://Aa''), url = utf16 ''http://Aa'',
         failureThreshold = 2, timeoutMs = 100, halfOpenSuccessThreshold = 1\<rparr>"
  let ?s0 = "createState (safeId (utf16 ''http://Aa'')) (Val (utf16 ''http://Aa'')) (Val ''CLOSED'') (Val 0) Null (Val 0) Null"
  have h1: "create ?c = (?p, ?s0)" by (simp add: create_def Let_def)
  have h2: "0 < failureThreshold ?p" by simp
  have h3: "int (length [(5::int, 6::int), (10, 11)]) = failureThreshold ?p" by simp
  have h4: "50 - snd (last [(5::int, 6::int), (10, 11)]) < timeoutMs ?p" by simp
  have run: "recordFailures ?p [(5, 6), (10, 11)] ?s0 =
      createState (safeId (utf16 ''http://Aa'')) (Val (utf16 ''http://Aa'')) (Val ''OPEN'') (Val 2) (Val 10) (Val 0) (Val 11)"
    by (simp add: createState_def recordFailure_def openCircuit_def getCircuitState_def Let_def)
  show ?thesis
    using h1 threshold_failures_open [OF h1 h2 h3 h4]
    unfolding run by simp
qed

section \<open>Successes\<close>

text \<open>
  C8: in state \<open>OPEN\<close>, \<open>recordSuccess\<close> returns the store as it was.
\<close>

theorem recordSuccess_open_noop:
  assumes "getCircuitState s = ''OPEN''"
  shows "recordSuccess p s = s"
  using assms by (simp add: recordSuccess_def Let_def)

theorem recordSuccess_open_noop_witness:
  "getCircuitState (createState [] Absent (Val ''OPEN'') (Val 2) (Val 10) (Val 0) (Val 10)) = ''OPEN'' \<and>
   recordSuccess \<lparr>dna_id = [], url = [], failureThreshold = 2, timeoutMs = 100, halfOpenSuccessThreshold = 1\<rparr>
       (createState [] Absent (Val ''OPEN'') (Val 2) (Val 10) (Val 0) (Val 10))
     = createState [] Absent (Val ''OPEN'') (Val 2) (Val 10) (Val 0) (Val 10)"
proof -
  have h: "getCircuitState (createState [] Absent (Val ''OPEN'') (Val 2) (Val 10) (Val 0) (Val 10)) = ''OPEN''"
    by (simp add: getCircuitState_def createState_def)
  show ?thesis
    using h recordSuccess_open_noop [OF h, of "\<lparr>dna_id = [], url = [], failureThreshold = 2, timeoutMs = 100, halfOpenSuccessThreshold = 1\<rparr>"]
    by simp
qed

lemma recordSuccess_reset_fixed:
  "recordSuccess p (resetCircuit s) = resetCircuit s"
  by (simp add: recordSuccess_def resetCircuit_def getCircuitState_def)

lemma recordSuccess_funpow_reset:
  "(recordSuccess p ^^ n) (resetCircuit s) = resetCircuit s"
  by (induction n) (simp_all add: recordSuccess_reset_fixed)

lemma recordSuccess_half_open_enough:
  assumes "getCircuitState s = ''HALF_OPEN''"
    and "halfOpenSuccessThreshold p \<le> nullish (k_successCount s) 0 + 1"
  shows "recordSuccess p s = resetCircuit s"
  using assms by (simp add: recordSuccess_def resetCircuit_def Let_def)

lemma recordSuccess_half_open_short:
  assumes "getCircuitState s = ''HALF_OPEN''"
    and "nullish (k_successCount s) 0 + 1 < halfOpenSuccessThreshold p"
  shows "recordSuccess p s = s\<lparr>k_successCount := Val (nullish (k_successCount s) 0 + 1)\<rparr>"
  using assms by (simp add: recordSuccess_def Let_def)

lemma resetCircuit_count_update:
  "resetCircuit (s\<lparr>k_successCount := c\<rparr>) = resetCircuit s"
  by (simp add: resetCircuit_def)

lemma half_open_successes_reset:
  assumes "getCircuitState s = ''HALF_OPEN''"
    and "0 < n"
    and "halfOpenSuccessThreshold p \<le> nullish (k_successCount s) 0 + int n"
  shows "(recordSuccess p ^^ n) s = resetCircuit s"
  using assms
proof (induction n arbitrary: s)
  case 0
  then show ?case by simp
next
  case (Suc n)
  show ?case
  proof (cases "halfOpenSuccessThreshold p \<le> nullish (k_successCount s) 0 + 1")
    case True
    from recordSuccess_half_open_enough [OF Suc.prems(1) True]
    show ?thesis by (simp add: funpow_swap1 recordSuccess_funpow_reset)
  next
    case False
    then have short: "nullish (k_successCount s) 0 + 1 < halfOpenSuccessThreshold p" by simp
    define s1 where "s1 = s\<lparr>k_successCount := Val (nullish (k_successCount s) 0 + 1)\<rparr>"
    have step: "recordSuccess p s = s1"
      using recordSuccess_half_open_short [OF Suc.prems(1) short] by (simp add: s1_def)
    have half: "getCircuitState s1 = ''HALF_OPEN''"
      using Suc.prems(1) by (simp add: s1_def getCircuitState_def)
    have pos: "0 < n" using short Suc.prems(3) by (cases n) auto
    have enough: "halfOpenSuccessThreshold p \<le> nullish (k_successCount s1) 0 + int n"
      using Suc.prems(3) by (simp add: s1_def)
    have "(recordSuccess p ^^ n) s1 = resetCircuit s1"
      by (rule Suc.IH [OF half pos enough])
    then show ?thesis
      by (simp add: funpow_swap1 step) (simp add: s1_def resetCircuit_count_update)
  qed
qed

text \<open>
  C5: in state \<open>HALF_OPEN\<close> with a success counter that is not negative and a positive
  \<open>halfOpenSuccessThreshold\<close>, that many consecutive \<open>recordSuccess\<close> calls leave the store
  fully reset: state \<open>CLOSED\<close>, both counters 0, both timestamps \<open>null\<close>.
\<close>

theorem half_open_successes_close:
  assumes "getCircuitState s = ''HALF_OPEN''"
    and "0 < halfOpenSuccessThreshold p"
    and "int n = halfOpenSuccessThreshold p"
    and "0 \<le> nullish (k_successCount s) 0"
  shows "(recordSuccess p ^^ n) s =
           s\<lparr>k_state := Val ''CLOSED'', k_failures := Val 0, k_lastFailure := Null,
             k_successCount := Val 0, k_openedAt := Null\<rparr>"
proof -
  from assms(2,3) have "0 < n" by auto
  moreover from assms(3,4) have "halfOpenSuccessThreshold p \<le> nullish (k_successCount s) 0 + int n"
    by simp
  ultimately have "(recordSuccess p ^^ n) s = resetCircuit s"
    by (rule half_open_successes_reset [OF assms(1)])
  then show ?thesis by (simp add: resetCircuit_def)
qed

theorem half_open_successes_close_witness:
  "getCircuitState (createState [] Absent (Val ''HALF_OPEN'') (Val 2) (Val 10) (Val 0) (Val 10)) = ''HALF_OPEN'' \<and>
   (0::int) < halfOpenSuccessThreshold \<lparr>dna_id = [], url = [], failureThreshold = 2, timeoutMs = 100, halfOpenSuccessThreshold = 2\<rparr> \<and>
   int 2 = halfOpenSuccessThreshold \<lparr>dna_id = [], url = [], failureThreshold = 2, timeoutMs = 100, halfOpenSuccessThreshold = 2\<rparr> \<and>
   0 \<le> nullish (k_successCount (createState [] Absent (Val ''HALF_OPEN'') (Val 2) (Val 10) (Val 0) (Val 10))) 0 \<and>
   (recordSuccess \<lparr>dna_id = [], url = [], failureThreshold = 2, timeoutMs = 100, halfOpenSuccessThreshold = 2\<rparr> ^^ 2)
       (createState [] Absent (Val ''HALF_OPEN'') (Val 2) (Val 10) (Val 0) (Val 10))
     = createState [] Absent (Val ''CLOSED'') (Val 0) Null (Val 0) Null"
proof -
  let ?p = "\<lparr>dna_id = [], url = [], failureThreshold = 2, timeoutMs = 100, halfOpenSuccessThreshold = 2\<rparr>"
  let ?s = "createState [] Absent (Val ''HALF_OPEN'') (Val 2) (Val 10) (Val 0) (Val 10)"
  have h1: "getCircuitState ?s = ''HALF_OPEN''"
    by (simp add: getCircuitState_def createState_def)
  have h2: "0 < halfOpenSuccessThreshold ?p" by simp
  have h3: "int 2 = halfOpenSuccessThreshold ?p" by simp
  have h4: "0 \<le> nullish (k_successCount ?s) 0" by (simp add: createState_def)
  show ?thesis
    using h1 h4 half_open_successes_close [OF h1 h2 h3 h4]
    by (simp add: createState_def)
qed

section \<open>Admission\<close>

text \<open>
  C4, as amended: in state \<open>OPEN\<close> with an \<open>openedAt\<close> that is a number other than 0,
  \<open>canProceed\<close> compares the clock reading minus \<open>openedAt\<close> with \<open>timeoutMs\<close>: from
  \<open>timeoutMs\<close> on it sets the state to \<open>HALF_OPEN\<close> and \<open>successCount\<close> to 0 and returns
  true; below it returns false and changes nothing.
\<close>

theorem canProceed_open:
  assumes "getCircuitState s = ''OPEN''" and "k_openedAt s = Val openedAt" and "openedAt \<noteq> 0"
  shows "canProceed p now s =
           (if now - openedAt \<ge> timeoutMs p
            then (True, s\<lparr>k_state := Val ''HALF_OPEN'', k_successCount := Val 0\<rparr>)
            else (False, s))"
  using assms by (simp add: canProceed_def Let_def)

theorem canProceed_open_witness:
  "getCircuitState (createState [] Absent (Val ''OPEN'') (Val 2) (Val 10) (Val 3) (Val 10)) = ''OPEN'' \<and>
   k_openedAt (createState [] Absent (Val ''OPEN'') (Val 2) (Val 10) (Val 3) (Val 10)) = Val 10 \<and>
   (10::int) \<noteq> 0 \<and>
   canProceed \<lparr>dna_id = [], url = [], failureThreshold = 2, timeoutMs = 100, halfOpenSuccessThreshold = 1\<rparr> 110
       (createState [] Absent (Val ''OPEN'') (Val 2) (Val 10) (Val 3) (Val 10))
     = (True, createState [] Absent (Val ''HALF_OPEN'') (Val 2) (Val 10) (Val 0) (Val 10)) \<and>
   canProceed \<lparr>dna_id = [], url = [], failureThreshold = 2, timeoutMs = 100, halfOpenSuccessThreshold = 1\<rparr> 109
       (createState [] Absent (Val ''OPEN'') (Val 2) (Val 10) (Val 3) (Val 10))
     = (False, createState [] Absent (Val ''OPEN'') (Val 2) (Val 10) (Val 3) (Val 10))"
proof -
  have h1: "getCircuitState (createState [] Absent (Val ''OPEN'') (Val 2) (Val 10) (Val 3) (Val 10)) = ''OPEN''"
    by (simp add: getCircuitState_def createState_def)
  have h2: "k_openedAt (createState [] Absent (Val ''OPEN'') (Val 2) (Val 10) (Val 3) (Val 10)) = Val 10"
    by (simp add: createState_def)
  have h3: "(10::int) \<noteq> 0" by simp
  show ?thesis
    using h1 h2
      canProceed_open [OF h1 h2 h3, of "\<lparr>dna_id = [], url = [], failureThreshold = 2, timeoutMs = 100, halfOpenSuccessThreshold = 1\<rparr>" 110]
      canProceed_open [OF h1 h2 h3, of "\<lparr>dna_id = [], url = [], failureThreshold = 2, timeoutMs = 100, halfOpenSuccessThreshold = 1\<rparr>" 109]
    by (simp add: createState_def)
qed

text \<open>
  The claim as first stated fails when \<open>openedAt\<close> holds 0: a breaker with threshold 1
  opened by a failure at clock reading 0 stays blocked at reading 1000 with a timeout of
  100.
\<close>

theorem canProceed_open_zero_openedAt:
  "getCircuitState
     (recordFailures
        (fst (create \<lparr>cfg_url = utf16 ''http://Aa'', cfg_failureThreshold = Some 1,
                      cfg_timeoutMs = Some 100, cfg_halfOpenSuccessThreshold = None\<rparr>))
        [(0, 0)]
        (snd (create \<lparr>cfg_url = utf16 ''http://Aa'', cfg_failureThreshold = Some 1,
                      cfg_timeoutMs = Some 100, cfg_halfOpenSuccessThreshold = None\<rparr>))) = ''OPEN'' \<and>
   k_openedAt
     (recordFailures
        (fst (create \<lparr>cfg_url = utf16 ''http://Aa'', cfg_failureThreshold = Some 1,
                      cfg_timeoutMs = Some 100, cfg_halfOpenSuccessThreshold = None\<rparr>))
        [(0, 0)]
        (snd (create \<lparr>cfg_url = utf16 ''http://Aa'', cfg_failureThreshold = Some 1,
                      cfg_timeoutMs = Some 100, cfg_halfOpenSuccessThreshold = None\<rparr>))) = Val 0 \<and>
   timeoutMs
     (fst (create \<lparr>cfg_url = utf16 ''http://Aa'', cfg_failureThreshold = Some 1,
                   cfg_timeoutMs = Some 100, cfg_halfOpenSuccessThreshold = None\<rparr>)) \<le> 1000 - 0 \<and>
   fst (canProceed
     (fst (create \<lparr>cfg_url = utf16 ''http://Aa'', cfg_failureThreshold = Some 1,
                   cfg_timeoutMs = Some 100, cfg_halfOpenSuccessThreshold = None\<rparr>))
     1000
     (recordFailures
        (fst (create \<lparr>cfg_url = utf16 ''http://Aa'', cfg_failureThreshold = Some 1,
                      cfg_timeoutMs = Some 100, cfg_halfOpenSuccessThreshold = None\<rparr>))
        [(0, 0)]
        (snd (create \<lparr>cfg_url = utf16 ''http://Aa'', cfg_failureThreshold = Some 1,
                      cfg_timeoutMs = Some 100, cfg_halfOpenSuccessThreshold = None\<rparr>)))) = False"
  by (simp add: create_def createState_def recordFailure_def openCircuit_def
      getCircuitState_def canProceed_def Let_def)

text \<open>
  C10: in state \<open>OPEN\<close> with \<open>openedAt\<close> never set, \<open>null\<close> or 0, \<open>canProceed\<close> returns
  false and changes nothing, whatever the clock reading and \<open>timeoutMs\<close> are.
\<close>

theorem canProceed_open_falsy_openedAt:
  assumes "getCircuitState s = ''OPEN''"
    and "k_openedAt s = Absent \<or> k_openedAt s = Null \<or> k_openedAt s = Val 0"
  shows "canProceed p now s = (False, s)"
  using assms by (auto simp add: canProceed_def Let_def)

theorem canProceed_open_falsy_openedAt_witness:
  "getCircuitState (createState [] Absent (Val ''OPEN'') (Val 2) (Val 10) (Val 0) (Val 0)) = ''OPEN'' \<and>
   k_openedAt (createState [] Absent (Val ''OPEN'') (Val 2) (Val 10) (Val 0) (Val 0)) = Val 0 \<and>
   canProceed \<lparr>dna_id = [], url = [], failureThreshold = 2, timeoutMs = 100, halfOpenSuccessThreshold = 1\<rparr> 5000
       (createState [] Absent (Val ''OPEN'') (Val 2) (Val 10) (Val 0) (Val 0))
     = (False, createState [] Absent (Val ''OPEN'') (Val 2) (Val 10) (Val 0) (Val 0)) \<and>
   getCircuitState (createState [] Absent (Val ''OPEN'') (Val 2) (Val 10) (Val 0) Absent) = ''OPEN'' \<and>
   k_openedAt (createState [] Absent (Val ''OPEN'') (Val 2) (Val 10) (Val 0) Absent) = Absent \<and>
   canProceed \<lparr>dna_id = [], url = [], failureThreshold = 2, timeoutMs = 100, halfOpenSuccessThreshold = 1\<rparr> 5000
       (createState [] Absent (Val ''OPEN'') (Val 2) (Val 10) (Val 0) Absent)
     = (False, createState [] Absent (Val ''OPEN'') (Val 2) (Val 10) (Val 0) Absent)"
proof -
  have a1: "getCircuitState (createState [] Absent (Val ''OPEN'') (Val 2) (Val 10) (Val 0) (Val 0)) = ''OPEN''"
    by (simp add: getCircuitState_def createState_def)
  have a2: "k_openedAt (createState [] Absent (Val ''OPEN'') (Val 2) (Val 10) (Val 0) (Val 0)) = Absent \<or>
            k_openedAt (createState [] Absent (Val ''OPEN'') (Val 2) (Val 10) (Val 0) (Val 0)) = Null \<or>
            k_openedAt (createState [] Absent (Val ''OPEN'') (Val 2) (Val 10) (Val 0) (Val 0)) = Val 0"
    by (simp add: createState_def)
  have b1: "getCircuitState (createState [] Absent (Val ''OPEN'') (Val 2) (Val 10) (Val 0) Absent) = ''OPEN''"
    by (simp add: getCircuitState_def createState_def)
  have b2: "k_openedAt (createState [] Absent (Val ''OPEN'') (Val 2) (Val 10) (Val 0) Absent) = Absent \<or>
            k_openedAt (createState [] Absent (Val ''OPEN'') (Val 2) (Val 10) (Val 0) Absent) = Null \<or>
            k_openedAt (createState [] Absent (Val ''OPEN'') (Val 2) (Val 10) (Val 0) Absent) = Val 0"
    by (simp add: createState_def)
  show ?thesis
    using a1 b1
      canProceed_open_falsy_openedAt [OF a1 a2, of "\<lparr>dna_id = [], url = [], failureThreshold = 2, timeoutMs = 100, halfOpenSuccessThreshold = 1\<rparr>" 5000]
      canProceed_open_falsy_openedAt [OF b1 b2, of "\<lparr>dna_id = [], url = [], failureThreshold = 2, timeoutMs = 100, halfOpenSuccessThreshold = 1\<rparr>" 5000]
    by (simp add: createState_def)
qed

section \<open>Reads of a store without keys\<close>

text \<open>
  C9: on a store in which no key was ever set, \<open>getCircuitState\<close> returns \<open>CLOSED\<close>, and
  \<open>getStats\<close> reports state \<open>CLOSED\<close>, 0 failures, 0 successes and both timestamps as not
  set; a \<open>getStats\<close> call leaves every store as it found it.
\<close>

theorem absent_keys_defaults:
  "getCircuitState (emptyState ident) = ''CLOSED'' \<and>
   teach p GetCircuitState (emptyState ident) = (State ''CLOSED'', emptyState ident) \<and>
   stats_state (getStats p (emptyState ident)) = ''CLOSED'' \<and>
   stats_failures (getStats p (emptyState ident)) = 0 \<and>
   stats_successCount (getStats p (emptyState ident)) = 0 \<and>
   stats_lastFailure (getStats p (emptyState ident)) = Absent \<and>
   stats_openedAt (getStats p (emptyState ident)) = Absent \<and>
   snd (teach p GetStats s) = s"
  by (simp add: getCircuitState_def getStats_def emptyState_def createState_def)

section \<open>The derived store key\<close>

lemma hexDigit_safe:
  assumes "d < 16"
  shows "hexDigit d \<in> set (utf16 ''0123456789abcdef'')"
proof -
  have "length (utf16 ''0123456789abcdef'') = 16" by (simp add: utf16_def)
  with assms show ?thesis unfolding hexDigit_def by (metis nth_mem)
qed

lemma toString16_safe:
  "set (toString16 n) \<subseteq> set (utf16 ''0123456789abcdef'')"
proof (induction n rule: toString16.induct)
  case (1 n)
  show ?case
  proof (cases "n < 16")
    case True
    then show ?thesis by (simp add: toString16.simps [of n] hexDigit_safe)
  next
    case False
    have "n mod 16 < 16" by simp
    with False "1.IH" show ?thesis
      by (simp add: toString16.simps [of n] hexDigit_safe)
  qed
qed

lemma toString16_length:
  assumes "n < 16 ^ k" and "0 < k"
  shows "length (toString16 n) \<le> k"
  using assms
proof (induction k arbitrary: n)
  case 0
  then show ?case by simp
next
  case (Suc k)
  show ?case
  proof (cases "n < 16")
    case True
    then show ?thesis by (simp add: toString16.simps [of n])
  next
    case False
    with Suc.prems(1) have kpos: "0 < k" by (cases k) auto
    have "n div 16 < 16 ^ k"
      using Suc.prems(1) by (simp add: less_mult_imp_div_less mult.commute)
    from Suc.IH [OF this kpos] False show ?thesis
      by (simp add: toString16.simps [of n])
  qed
qed

lemma abs_sint32_bound:
  "nat \<bar>sint (h :: 32 word)\<bar> < 16 ^ 8"
proof -
  have "- (2 ^ 31) \<le> sint h" and "sint h < 2 ^ 31"
    using sint_range_size [of h] by (simp_all add: word_size)
  then show ?thesis by simp
qed

lemma safeId_length: "length (safeId u) = 8"
proof -
  have "length (toString16 (nat \<bar>sint (hashLoop 0 u)\<bar>)) \<le> 8"
    by (rule toString16_length [OF abs_sint32_bound]) simp
  then show ?thesis by (simp add: safeId_def padStart_def Let_def)
qed

lemma safeId_safe: "set (safeId u) \<subseteq> set (utf16 ''0123456789abcdef'')"
proof -
  have "hexDigit 0 \<in> set (utf16 ''0123456789abcdef'')"
    by (rule hexDigit_safe) simp
  then show ?thesis
    using toString16_safe [of "nat \<bar>sint (hashLoop 0 u)\<bar>"]
    by (auto simp add: safeId_def padStart_def Let_def)
qed

lemma set_squeezeDashes: "set (squeezeDashes xs) \<subseteq> set xs"
  by (induction xs rule: squeezeDashes.induct) auto

lemma set_trimDash: "set (trimDash xs) \<subseteq> set xs"
  by (cases xs) (auto simp add: trimDash_def Let_def dest: in_set_butlastD)

lemma safeIdInline_safe: "set (safeIdInline u) \<subseteq> {c. isAlnum c \<or> c = dash}"
proof -
  let ?m = "map (\<lambda>c. if isAlnum c then c else dash) (dropScheme u)"
  have "set ?m \<subseteq> {c. isAlnum c \<or> c = dash}" by auto
  with set_squeezeDashes [of ?m] set_trimDash [of "squeezeDashes ?m"]
  have body: "set (trimDash (squeezeDashes ?m)) \<subseteq> {c. isAlnum c \<or> c = dash}" by blast
  have "set (utf16 ''circuit-'') \<subseteq> {c. isAlnum c \<or> c = dash}"
    by (simp add: utf16_def isAlnum_def dash_def)
  with body show ?thesis by (simp add: safeIdInline_def)
qed

text \<open>
  What both derivations do deliver: the key of the store and the id of the unit are
  functions of the identity alone, so the same identity always gives the same key; the
  hashed key is exactly eight characters out of \<open>0-9\<close> and \<open>a-f\<close>; the inline
  key is \<open>circuit-\<close> followed by letters, digits and \<open>-\<close> only.
\<close>

lemma derived_key_shape:
  "store_id (snd (create config)) = safeId (cfg_url config) \<and>
   dna_id (fst (create config)) = utf16 ''circuit-breaker-'' @ safeId (cfg_url config) \<and>
   length (safeId u) = 8 \<and>
   set (safeId u) \<subseteq> set (utf16 ''0123456789abcdef'') \<and>
   store_id (snd (createInline config)) = safeIdInline (cfg_url config) \<and>
   dna_id (fst (createInline config)) = utf16 ''circuit-breaker-'' @ safeIdInline (cfg_url config) \<and>
   take 8 (safeIdInline u) = utf16 ''circuit-'' \<and>
   set (drop 8 (safeIdInline u)) \<subseteq> {c. isAlnum c \<or> c = dash}"
proof -
  have len: "length (utf16 ''circuit-'') = 8" by (simp add: utf16_def)
  have "set (drop 8 (safeIdInline u)) \<subseteq> set (safeIdInline u)"
    by (rule set_drop_subset)
  with safeIdInline_safe [of u]
  have body: "set (drop 8 (safeIdInline u)) \<subseteq> {c. isAlnum c \<or> c = dash}" by blast
  have pre: "take 8 (safeIdInline u) = utf16 ''circuit-''"
    using len by (simp add: safeIdInline_def)
  show ?thesis
    using safeId_length [of u] safeId_safe [of u] body pre
    by (simp add: create_def createInline_def createState_def Let_def)
qed

lemma hashLoop_collision:
  "hashLoop 0 (utf16 ''http://Aa'') = hashLoop 0 (utf16 ''http://BB'')"
  by (simp add: utf16_def)

lemma dropScheme_http: "dropScheme (utf16 ''http://api.example.com'') = utf16 ''api.example.com''"
  by (simp add: utf16_def)

lemma dropScheme_https: "dropScheme (utf16 ''https://api.example.com'') = utf16 ''api.example.com''"
  by (simp add: utf16_def)

text \<open>
  C2: the claim asks that two different identities get two different keys, and the
  source says the same of itself: \<open>safeId\<close> is commented as giving a guaranteed unique
  id, and the tests expect \<open>https://api.example.com\<close> and \<open>http://api.example.com\<close> to
  get different ids. Neither derivation keeps that promise. The hash gives the different
  identities \<open>http://Aa\<close> and \<open>http://BB\<close> the same store key and the same unit id; the
  inline replacement gives \<open>http://api.example.com\<close> and \<open>https://api.example.com\<close>,
  the pair of the test, the same store key and the same unit id.
\<close>

theorem derived_key_collision:
  "utf16 ''http://Aa'' \<noteq> utf16 ''http://BB'' \<and>
   store_id (snd (create \<lparr>cfg_url = utf16 ''http://Aa'', cfg_failureThreshold = None,
                            cfg_timeoutMs = None, cfg_halfOpenSuccessThreshold = None\<rparr>)) =
   store_id (snd (create \<lparr>cfg_url = utf16 ''http://BB'', cfg_failureThreshold = None,
                            cfg_timeoutMs = None, cfg_halfOpenSuccessThreshold = None\<rparr>)) \<and>
   dna_id (fst (create \<lparr>cfg_url = utf16 ''http://Aa'', cfg_failureThreshold = None,
                          cfg_timeoutMs = None, cfg_halfOpenSuccessThreshold = None\<rparr>)) =
   dna_id (fst (create \<lparr>cfg_url = utf16 ''http://BB'', cfg_failureThreshold = None,
                          cfg_timeoutMs = None, cfg_halfOpenSuccessThreshold = None\<rparr>)) \<and>
   utf16 ''http://api.example.com'' \<noteq> utf16 ''https://api.example.com'' \<and>
   store_id (snd (createInline \<lparr>cfg_url = utf16 ''http://api.example.com'', cfg_failureThreshold = None,
                                  cfg_timeoutMs = None, cfg_halfOpenSuccessThreshold = None\<rparr>)) =
   store_id (snd (createInline \<lparr>cfg_url = utf16 ''https://api.example.com'', cfg_failureThreshold = None,
                                  cfg_timeoutMs = None, cfg_halfOpenSuccessThreshold = None\<rparr>)) \<and>
   dna_id (fst (createInline \<lparr>cfg_url = utf16 ''http://api.example.com'', cfg_failureThreshold = None,
                                cfg_timeoutMs = None, cfg_halfOpenSuccessThreshold = None\<rparr>)) =
   dna_id (fst (createInline \<lparr>cfg_url = utf16 ''https://api.example.com'', cfg_failureThreshold = None,
                                cfg_timeoutMs = None, cfg_halfOpenSuccessThreshold = None\<rparr>))"
proof -
  have "utf16 ''http://Aa'' \<noteq> utf16 ''http://BB''"
    and "utf16 ''http://api.example.com'' \<noteq> utf16 ''https://api.example.com''"
    by (simp_all add: utf16_def)
  moreover have "safeId (utf16 ''http://Aa'') = safeId (utf16 ''http://BB'')"
    by (simp add: safeId_def hashLoop_collision)
  moreover have "safeIdInline (utf16 ''http://api.example.com'') =
                 safeIdInline (utf16 ''https://api.example.com'')"
    by (simp add: safeIdInline_def dropScheme_http dropScheme_https)
  ultimately show ?thesis
    by (simp add: create_def createInline_def createState_def Let_def)
qed

end
